theory Spec2Isabelle
  imports Main "HOL-Library.Multiset"
begin

section \<open>Python strings\<close>

text \<open>
  A Python \<open>str\<close> is modelled as a \<open>string\<close>: a list of characters with code points
  0 to 255 (Latin-1). The functions below follow the behaviour of the \<open>str\<close> methods and
  of the \<open>re\<close> module on these code points.
\<close>

datatype py_error =
    IndexError
  | ValueError
  | SyntaxError
  | UnicodeDecodeError
  | RuntimeError string

abbreviation LF :: char where "LF \<equiv> CHR 0x0A"
abbreviation CR :: char where "CR \<equiv> CHR 0x0D"

text \<open>\<open>str.isspace\<close> on one character, which is also the class \<open>\s\<close> of \<open>re\<close>.\<close>

definition is_space :: "char \<Rightarrow> bool" where
  "is_space c = (c \<in> set [CHR 0x09, CHR 0x0A, CHR 0x0B, CHR 0x0C, CHR 0x0D,
                           CHR 0x1C, CHR 0x1D, CHR 0x1E, CHR 0x1F, CHR 0x20,
                           CHR 0x85, CHR 0xA0])"

text \<open>The line boundaries of \<open>str.splitlines\<close> (CR LF counts as one boundary).\<close>

definition is_linebreak :: "char \<Rightarrow> bool" where
  "is_linebreak c = (c \<in> set [CHR 0x0A, CHR 0x0B, CHR 0x0C, CHR 0x0D,
                               CHR 0x1C, CHR 0x1D, CHR 0x1E, CHR 0x85])"

definition strip :: "string \<Rightarrow> string" where
  "strip s = rev (dropWhile is_space (rev (dropWhile is_space s)))"

definition lower_char :: "char \<Rightarrow> char" where
  "lower_char c =
     (let n = (of_char c :: nat) in
      if (65 \<le> n \<and> n \<le> 90) \<or> (192 \<le> n \<and> n \<le> 222 \<and> n \<noteq> 215)
      then char_of (n + 32) else c)"

definition lower :: "string \<Rightarrow> string" where
  "lower s = map lower_char s"

fun startswith :: "string \<Rightarrow> string \<Rightarrow> bool" where
  "startswith s [] = True"
| "startswith [] (p # ps) = False"
| "startswith (c # cs) (p # ps) = (c = p \<and> startswith cs ps)"

text \<open>\<open>s.find(c)\<close> for a single character: the first index, or \<open>None\<close> for \<open>-1\<close>.\<close>

fun find_char :: "char \<Rightarrow> string \<Rightarrow> nat option" where
  "find_char c [] = None"
| "find_char c (x # xs) =
     (if x = c then Some 0 else map_option Suc (find_char c xs))"

text \<open>\<open>s.split(c)\<close> for a single character separator: never the empty list.\<close>

fun split_on :: "char \<Rightarrow> string \<Rightarrow> string list" where
  "split_on c [] = [[]]"
| "split_on c (x # xs) =
     (if x = c then [] # split_on c xs
      else (case split_on c xs of
              [] \<Rightarrow> [[x]]
            | p # ps \<Rightarrow> (x # p) # ps))"

text \<open>
  \<open>s.splitlines()\<close>: \<open>cur\<close> holds the characters of the line being read, last first. A
  line that has no character and no boundary after it does not exist, so the text after
  the last boundary is a line only when it is not empty.
\<close>

fun splitlines_from :: "string \<Rightarrow> string \<Rightarrow> string list" where
  "splitlines_from cur [] = (if cur = [] then [] else [rev cur])"
| "splitlines_from cur (c # cs) =
     (if is_linebreak c then
        (case cs of
           d # ds \<Rightarrow>
             if c = CR \<and> d = LF then rev cur # splitlines_from [] ds
             else rev cur # splitlines_from [] cs
         | [] \<Rightarrow> rev cur # splitlines_from [] cs)
      else splitlines_from (c # cur) cs)"

definition splitlines :: "string \<Rightarrow> string list" where
  "splitlines s = splitlines_from [] s"

section \<open>Regular expressions as backtracking matchers\<close>

text \<open>
  Each combinator takes the continuation \<open>k\<close> that matches the rest of the pattern and
  the text still to be read; \<open>None\<close> is a failed attempt, after which the caller tries
  its next alternative, as the backtracking matcher of \<open>re\<close> does.
\<close>

definition rx_chr :: "char \<Rightarrow> (string \<Rightarrow> 'a option) \<Rightarrow> string \<Rightarrow> 'a option" where
  "rx_chr p k s = (case s of [] \<Rightarrow> None | c # cs \<Rightarrow> if c = p then k cs else None)"

text \<open>A literal; with \<open>ci\<close> set it is compared as under \<open>re.IGNORECASE\<close>.\<close>

fun rx_lit :: "bool \<Rightarrow> string \<Rightarrow> (string \<Rightarrow> 'a option) \<Rightarrow> string \<Rightarrow> 'a option" where
  "rx_lit ci [] k s = k s"
| "rx_lit ci (p # ps) k [] = None"
| "rx_lit ci (p # ps) k (c # cs) =
     (if (if ci then lower_char c = lower_char p else c = p) then rx_lit ci ps k cs
      else None)"

definition rx_alt :: "(string \<Rightarrow> 'a option) \<Rightarrow> (string \<Rightarrow> 'a option) \<Rightarrow> string \<Rightarrow> 'a option" where
  "rx_alt k1 k2 s = (case k1 s of Some r \<Rightarrow> Some r | None \<Rightarrow> k2 s)"

text \<open>
  \<open>[class]*\<close>, greedy, with the matched text passed on: the longest run is tried first,
  then each shorter one. \<open>acc\<close> is the text matched so far.
\<close>

fun rx_star_from :: "(char \<Rightarrow> bool) \<Rightarrow> string \<Rightarrow> (string \<Rightarrow> string \<Rightarrow> 'a option) \<Rightarrow> string \<Rightarrow> 'a option" where
  "rx_star_from P acc k [] = k acc []"
| "rx_star_from P acc k (c # cs) =
     (if P c then
        (case rx_star_from P (acc @ [c]) k cs of
           Some r \<Rightarrow> Some r
         | None \<Rightarrow> k acc (c # cs))
      else k acc (c # cs))"

definition rx_star :: "(char \<Rightarrow> bool) \<Rightarrow> (string \<Rightarrow> 'a option) \<Rightarrow> string \<Rightarrow> 'a option" where
  "rx_star P k s = rx_star_from P [] (\<lambda>m. k) s"

definition rx_plus :: "(char \<Rightarrow> bool) \<Rightarrow> (string \<Rightarrow> string \<Rightarrow> 'a option) \<Rightarrow> string \<Rightarrow> 'a option" where
  "rx_plus P k s = rx_star_from P [] (\<lambda>m r. if m = [] then None else k m r) s"

text \<open>\<open>$\<close> without \<open>re.MULTILINE\<close>: the end of the text, or just before a final newline.\<close>

definition rx_eol :: "'a \<Rightarrow> string \<Rightarrow> 'a option" where
  "rx_eol r s = (if s = [] \<or> s = [LF] then Some r else None)"

text \<open>The group \<open>(upstream|downstream)\<close>; the matched text is passed on.\<close>

definition rx_direction :: "bool \<Rightarrow> (string \<Rightarrow> string \<Rightarrow> 'a option) \<Rightarrow> string \<Rightarrow> 'a option" where
  "rx_direction ci k s =
     rx_alt (rx_lit ci ''upstream'' (k (take 8 s)))
            (rx_lit ci ''downstream'' (k (take 10 s))) s"

section \<open>The tag recogniser (openmetadata_linker.py)\<close>

record metadata_ref =
  direction :: string
  application :: string
  field :: string

text \<open>\<open>SECTION_UNDERLINE.match(line)\<close>, for the pattern \<open>^[=~`^#*\-]{3,}\s*$\<close>.\<close>

definition is_underline_char :: "char \<Rightarrow> bool" where
  "is_underline_char c = (c \<in> set [CHR ''='', CHR ''~'', CHR 0x60, CHR ''^'', CHR ''#'',
                                    CHR ''*'', CHR ''-''])"

definition section_underline :: "string \<Rightarrow> bool" where
  "section_underline line =
     (rx_star_from is_underline_char []
        (\<lambda>m. if length m < 3 then (\<lambda>r. None) else rx_star is_space (rx_eol ())) line
      \<noteq> None)"

text \<open>
  The pattern of a line of the section,
  \<open>^(?:-\s*)?(upstream|downstream)\s*:\s*(.+)$\<close> under \<open>re.IGNORECASE\<close>: the two groups
  of a match.
\<close>

definition directive_body :: "string \<Rightarrow> (string \<times> string) option" where
  "directive_body =
     rx_direction True (\<lambda>d.
       rx_star is_space (rx_chr (CHR '':'')
         (rx_star is_space (rx_plus (\<lambda>c. c \<noteq> LF) (\<lambda>r. rx_eol (d, r))))))"

definition directive_re :: "string \<Rightarrow> (string \<times> string) option" where
  "directive_re =
     rx_alt (rx_chr (CHR ''-'') (rx_star is_space directive_body)) directive_body"

text \<open>
  The pattern of a field list line, \<open>^:openmetadata-(upstream|downstream):\s*(.+)$\<close>
  under \<open>re.IGNORECASE\<close>.
\<close>

definition fieldlist_re :: "string \<Rightarrow> (string \<times> string) option" where
  "fieldlist_re =
     rx_lit True '':openmetadata-'' (rx_direction True (\<lambda>d.
       rx_chr (CHR '':'')
         (rx_star is_space (rx_plus (\<lambda>c. c \<noteq> LF) (\<lambda>r. rx_eol (d, r))))))"

text \<open>
  \<open>TAG_PATTERN\<close>, \<open>openmetadata:(upstream|downstream)\(([^:()]+):([^)]+)\)\<close>, tried at
  the start of the text: the three groups of a match and the text after it.
\<close>

definition tag_re :: "string \<Rightarrow> ((string \<times> string \<times> string) \<times> string) option" where
  "tag_re =
     rx_lit False ''openmetadata:'' (rx_direction False (\<lambda>d.
       rx_chr (CHR ''('')
         (rx_plus (\<lambda>c. c \<notin> set '':()'') (\<lambda>a.
            rx_chr (CHR '':'')
              (rx_plus (\<lambda>c. c \<noteq> CHR '')'') (\<lambda>f.
                 rx_chr (CHR '')'') (\<lambda>rest. Some ((d, a, f), rest))))))))"

subsection \<open>What a match consumes\<close>

lemma rx_chr_Some:
  "rx_chr p k s = Some r \<Longrightarrow> \<exists>cs. s = p # cs \<and> k cs = Some r"
  by (auto simp: rx_chr_def split: list.splits if_splits)

lemma rx_lit_Some:
  "rx_lit ci p k s = Some r \<Longrightarrow>
     \<exists>m cs. s = m @ cs \<and> length m = length p
       \<and> (if ci then lower m = lower p else m = p) \<and> k cs = Some r"
proof (induction ci p k s rule: rx_lit.induct)
  case (1 ci k s)
  then show ?case by simp
next
  case (2 ci p ps k)
  then show ?case by simp
next
  case (3 ci p ps k c cs)
  from "3.prems" have ok: "(if ci then lower_char c = lower_char p else c = p)"
    and rec: "rx_lit ci ps k cs = Some r"
    by (auto split: if_splits)
  from "3.IH"[OF ok rec] obtain m cs' where
    "cs = m @ cs'" "length m = length ps" "if ci then lower m = lower ps else m = ps"
    "k cs' = Some r"
    by blast
  with ok show ?case
    by (intro exI[of _ "c # m"] exI[of _ cs']) (auto simp: lower_def split: if_splits)
qed

lemma rx_alt_Some:
  "rx_alt k1 k2 s = Some r \<Longrightarrow> k1 s = Some r \<or> k2 s = Some r"
  by (auto simp: rx_alt_def split: option.splits)

lemma rx_star_from_Some:
  "rx_star_from P acc k s = Some r \<Longrightarrow>
     \<exists>m rest. s = m @ rest \<and> list_all P m \<and> k (acc @ m) rest = Some r"
proof (induction s arbitrary: acc)
  case Nil
  then show ?case by simp
next
  case (Cons c cs)
  show ?case
  proof (cases "P c \<and> rx_star_from P (acc @ [c]) k cs = Some r")
    case True
    with Cons.IH[of "acc @ [c]"] obtain m rest where
      "cs = m @ rest" "list_all P m" "k ((acc @ [c]) @ m) rest = Some r"
      by blast
    with True show ?thesis
      by (intro exI[of _ "c # m"] exI[of _ rest]) simp
  next
    case False
    with Cons.prems have "k acc (c # cs) = Some r"
      by (auto split: if_splits option.splits)
    then show ?thesis
      by (intro exI[of _ "[]"] exI[of _ "c # cs"]) simp
  qed
qed

lemma rx_plus_Some:
  "rx_plus P k s = Some r \<Longrightarrow>
     \<exists>m rest. s = m @ rest \<and> m \<noteq> [] \<and> list_all P m \<and> k m rest = Some r"
  unfolding rx_plus_def
  by (drule rx_star_from_Some) (auto split: if_splits)

lemma rx_star_Some:
  "rx_star P k s = Some r \<Longrightarrow> \<exists>m rest. s = m @ rest \<and> list_all P m \<and> k rest = Some r"
  unfolding rx_star_def
  by (drule rx_star_from_Some) auto

lemma rx_lit_exact_Some:
  "rx_lit False p k s = Some r \<Longrightarrow> \<exists>cs. s = p @ cs \<and> k cs = Some r"
  by (drule rx_lit_Some) auto

lemma rx_lit_ci_Some:
  "rx_lit True p k s = Some r \<Longrightarrow>
     \<exists>m cs. s = m @ cs \<and> length m = length p \<and> lower m = lower p \<and> k cs = Some r"
  by (drule rx_lit_Some) auto

lemma rx_direction_exact_Some:
  assumes "rx_direction False k s = Some r"
  shows "\<exists>d rest. s = d @ rest \<and> (d = ''upstream'' \<or> d = ''downstream'')
           \<and> k d rest = Some r"
proof -
  from assms have "rx_lit False ''upstream'' (k (take 8 s)) s = Some r
      \<or> rx_lit False ''downstream'' (k (take 10 s)) s = Some r"
    unfolding rx_direction_def by (rule rx_alt_Some)
  then show ?thesis
  proof
    assume "rx_lit False ''upstream'' (k (take 8 s)) s = Some r"
    then obtain cs where "s = ''upstream'' @ cs" "k (take 8 s) cs = Some r"
      by (blast dest: rx_lit_exact_Some)
    then show ?thesis
      by (intro exI[of _ "''upstream''"] exI[of _ cs]) simp
  next
    assume "rx_lit False ''downstream'' (k (take 10 s)) s = Some r"
    then obtain cs where "s = ''downstream'' @ cs" "k (take 10 s) cs = Some r"
      by (blast dest: rx_lit_exact_Some)
    then show ?thesis
      by (intro exI[of _ "''downstream''"] exI[of _ cs]) simp
  qed
qed

lemma rx_direction_ci_Some:
  assumes "rx_direction True k s = Some r"
  shows "\<exists>d rest. s = d @ rest
           \<and> (lower d = lower ''upstream'' \<or> lower d = lower ''downstream'')
           \<and> k d rest = Some r"
proof -
  from assms have "rx_lit True ''upstream'' (k (take 8 s)) s = Some r
      \<or> rx_lit True ''downstream'' (k (take 10 s)) s = Some r"
    unfolding rx_direction_def by (rule rx_alt_Some)
  then show ?thesis
  proof
    assume "rx_lit True ''upstream'' (k (take 8 s)) s = Some r"
    then obtain m cs where "s = m @ cs" "length m = length ''upstream''"
      "lower m = lower ''upstream''" "k (take 8 s) cs = Some r"
      by (blast dest: rx_lit_ci_Some)
    then show ?thesis
      by (intro exI[of _ m] exI[of _ cs]) simp
  next
    assume "rx_lit True ''downstream'' (k (take 10 s)) s = Some r"
    then obtain m cs where "s = m @ cs" "length m = length ''downstream''"
      "lower m = lower ''downstream''" "k (take 10 s) cs = Some r"
      by (blast dest: rx_lit_ci_Some)
    then show ?thesis
      by (intro exI[of _ m] exI[of _ cs]) simp
  qed
qed

lemma tag_re_Some:
  assumes "tag_re s = Some ((d, a, f), rest)"
  shows "s = ''openmetadata:'' @ d @ ''('' @ a @ '':'' @ f @ '')'' @ rest
         \<and> (d = ''upstream'' \<or> d = ''downstream'') \<and> a \<noteq> [] \<and> f \<noteq> []"
proof -
  from assms obtain s1 where s: "s = ''openmetadata:'' @ s1"
    and 1: "rx_direction False (\<lambda>d.
       rx_chr (CHR ''('')
         (rx_plus (\<lambda>c. c \<notin> set '':()'') (\<lambda>a.
            rx_chr (CHR '':'')
              (rx_plus (\<lambda>c. c \<noteq> CHR '')'') (\<lambda>f.
                 rx_chr (CHR '')'') (\<lambda>rest. Some ((d, a, f), rest))))))) s1 = Some ((d, a, f), rest)"
    unfolding tag_re_def by (blast dest: rx_lit_exact_Some)
  from rx_direction_exact_Some[OF 1] obtain d' s2 where s1: "s1 = d' @ s2"
    and d': "d' = ''upstream'' \<or> d' = ''downstream''"
    and 2: "rx_chr (CHR ''('')
         (rx_plus (\<lambda>c. c \<notin> set '':()'') (\<lambda>a.
            rx_chr (CHR '':'')
              (rx_plus (\<lambda>c. c \<noteq> CHR '')'') (\<lambda>f.
                 rx_chr (CHR '')'') (\<lambda>rest. Some ((d', a, f), rest)))))) s2 = Some ((d, a, f), rest)"
    by blast
  from rx_chr_Some[OF 2] obtain s3 where s2: "s2 = CHR ''('' # s3"
    and 3: "rx_plus (\<lambda>c. c \<notin> set '':()'') (\<lambda>a.
            rx_chr (CHR '':'')
              (rx_plus (\<lambda>c. c \<noteq> CHR '')'') (\<lambda>f.
                 rx_chr (CHR '')'') (\<lambda>rest. Some ((d', a, f), rest))))) s3 = Some ((d, a, f), rest)"
    by blast
  from rx_plus_Some[OF 3] obtain a' s4 where s3: "s3 = a' @ s4" and a': "a' \<noteq> []"
    and 4: "rx_chr (CHR '':'')
              (rx_plus (\<lambda>c. c \<noteq> CHR '')'') (\<lambda>f.
                 rx_chr (CHR '')'') (\<lambda>rest. Some ((d', a', f), rest)))) s4 = Some ((d, a, f), rest)"
    by blast
  from rx_chr_Some[OF 4] obtain s5 where s4: "s4 = CHR '':'' # s5"
    and 5: "rx_plus (\<lambda>c. c \<noteq> CHR '')'') (\<lambda>f.
                 rx_chr (CHR '')'') (\<lambda>rest. Some ((d', a', f), rest))) s5 = Some ((d, a, f), rest)"
    by blast
  from rx_plus_Some[OF 5] obtain f' s6 where s5: "s5 = f' @ s6" and f': "f' \<noteq> []"
    and 6: "rx_chr (CHR '')'') (\<lambda>rest. Some ((d', a', f'), rest)) s6 = Some ((d, a, f), rest)"
    by blast
  from rx_chr_Some[OF 6] obtain s7 where s6: "s6 = CHR '')'' # s7"
    and 7: "Some ((d', a', f'), s7) = Some ((d, a, f), rest)"
    by blast
  from 7 have "d' = d" "a' = a" "f' = f" "s7 = rest" by simp_all
  with s s1 s2 s3 s4 s5 s6 d' a' f' show ?thesis by simp
qed

lemma tag_re_shorter: "tag_re s = Some (g, rest) \<Longrightarrow> length rest < length s"
  by (cases g) (auto dest!: tag_re_Some)

text \<open>
  \<open>TAG_PATTERN.finditer(docstring)\<close>: the matches from left to right, none overlapping
  another; after a match the search goes on where the match ended, after a failed
  attempt one character further.
\<close>

function finditer :: "string \<Rightarrow> (string \<times> string \<times> string) list" where
  "finditer [] = []"
| "finditer (c # cs) =
     (case tag_re (c # cs) of
        Some (g, rest) \<Rightarrow> g # finditer rest
      | None \<Rightarrow> finditer cs)"
  by pat_completeness auto
termination
proof (relation "measure length")
  show "wf (measure length)" by simp
next
  fix c cs
  show "(cs, c # cs) \<in> measure length" by simp
next
  fix c cs x2 x y
  assume "tag_re (c # cs) = Some x2" "(x, y) = x2"
  then have "tag_re (c # cs) = Some (x, y)" by simp
  then have "length y < length (c # cs)" by (rule tag_re_shorter)
  then show "(y, c # cs) \<in> measure length" by simp
qed

definition split_app_field :: "string \<Rightarrow> (string \<times> string) option" where
  "split_app_field text0 =
     (let text = strip text0 in
      if text = [] then None
      else (case find_char (CHR '':'') text of
              None \<Rightarrow> None
            | Some idx \<Rightarrow> Some (strip (take idx text), strip (drop (idx + 1) text))))"

text \<open>
  The loop over \<open>rest.split(',')\<close>, which the section parser and the field list parser
  share word for word: one reference for each part that \<open>split_app_field\<close> accepts.
\<close>

definition refs_of_rest :: "string \<Rightarrow> string \<Rightarrow> metadata_ref list" where
  "refs_of_rest d rest =
     concat (map (\<lambda>part.
        case split_app_field part of
          None \<Rightarrow> []
        | Some (app, fld) \<Rightarrow> [\<lparr>direction = d, application = app, field = fld\<rparr>])
      (split_on (CHR '','') rest))"

subsection \<open>The lines of the section\<close>

definition is_heading_at :: "string list \<Rightarrow> nat \<Rightarrow> bool" where
  "is_heading_at lines i =
     (lower (strip (lines ! i)) = ''openmetadata'' \<and> section_underline (lines ! (i + 1)))"

definition stops_at :: "string list \<Rightarrow> nat \<Rightarrow> bool" where
  "stops_at lines j =
     (j + 1 < length lines \<and> strip (lines ! j) \<noteq> [] \<and> section_underline (lines ! (j + 1)))"

text \<open>The \<open>while j < n\<close> loop of pattern A, from index \<open>j\<close>.\<close>

function collect_section :: "string list \<Rightarrow> nat \<Rightarrow> string list" where
  "collect_section lines j =
     (if j < length lines then
        (if stops_at lines j then []
         else lines ! j # collect_section lines (j + 1))
      else [])"
  by pat_completeness auto
termination
  by (relation "measure (\<lambda>(lines, j). length lines - j)") auto

text \<open>The \<open>for i in range(n - 1)\<close> loop of pattern A over the indices still to try.\<close>

fun pattern_a :: "string list \<Rightarrow> nat list \<Rightarrow> string list option" where
  "pattern_a lines [] = None"
| "pattern_a lines (i # rest) =
     (if is_heading_at lines i then Some (collect_section lines (i + 2))
      else pattern_a lines rest)"

text \<open>The \<open>while j < n and lines[j].strip()\<close> loop of pattern B, from index \<open>j\<close>.\<close>

function collect_block :: "string list \<Rightarrow> nat \<Rightarrow> string list" where
  "collect_block lines j =
     (if j < length lines \<and> strip (lines ! j) \<noteq> []
      then lines ! j # collect_block lines (j + 1)
      else [])"
  by pat_completeness auto
termination
  by (relation "measure (\<lambda>(lines, j). length lines - j)") auto

text \<open>\<open>s.split(c, 1)\<close>, and \<open>xs[1]\<close>, which raises when the list has one element.\<close>

definition split_once :: "char \<Rightarrow> string \<Rightarrow> string list" where
  "split_once c s =
     (case find_char c s of
        None \<Rightarrow> [s]
      | Some i \<Rightarrow> [take i s, drop (i + 1) s])"

definition item1 :: "'a list \<Rightarrow> py_error + 'a" where
  "item1 xs = (if 1 < length xs then Inr (xs ! 1) else Inl IndexError)"

fun pattern_b :: "string list \<Rightarrow> nat list \<Rightarrow> (py_error + string list) option" where
  "pattern_b lines [] = None"
| "pattern_b lines (i # rest) =
     (if startswith (lower (strip (lines ! i))) ''openmetadata:'' then
        Some (case item1 (split_once (CHR '':'') (lines ! i)) of
                Inl e \<Rightarrow> Inl e
              | Inr after \<Rightarrow>
                  Inr ((if strip after \<noteq> [] then [after] else [])
                       @ collect_block lines (i + 1)))
      else pattern_b lines rest)"

definition extract_openmetadata_section_lines :: "string \<Rightarrow> py_error + string list" where
  "extract_openmetadata_section_lines docstring =
     (let lines = splitlines docstring; n = length lines in
      case pattern_a lines [0 ..< n - 1] of
        Some content \<Rightarrow> Inr content
      | None \<Rightarrow>
          (case pattern_b lines [0 ..< n] of
             Some r \<Rightarrow> r
           | None \<Rightarrow> Inr []))"

subsection \<open>The three syntaxes and the merge\<close>

definition section_refs :: "string list \<Rightarrow> metadata_ref list" where
  "section_refs section_lines =
     concat (map (\<lambda>raw.
        let line = strip raw in
        if line = [] then []
        else (case directive_re line of
                None \<Rightarrow> []
              | Some (d, rest) \<Rightarrow> refs_of_rest (lower d) rest))
      section_lines)"

definition fieldlist_refs :: "string \<Rightarrow> metadata_ref list" where
  "fieldlist_refs docstring =
     concat (map (\<lambda>raw.
        case fieldlist_re (strip raw) of
          None \<Rightarrow> []
        | Some (d, rest) \<Rightarrow> refs_of_rest (lower d) rest)
      (splitlines docstring))"

definition inline_refs :: "string \<Rightarrow> metadata_ref list" where
  "inline_refs docstring =
     map (\<lambda>(d, a, f). \<lparr>direction = d, application = strip a, field = strip f\<rparr>)
       (finditer docstring)"

text \<open>
  A Python \<open>dict\<close> keeps its keys in the order of their first insertion: \<open>d[k] = v\<close>
  replaces the value of a key that is present where it stands, and adds a new key last.
\<close>

fun dict_set :: "('k \<times> 'v) list \<Rightarrow> 'k \<Rightarrow> 'v \<Rightarrow> ('k \<times> 'v) list" where
  "dict_set [] k v = [(k, v)]"
| "dict_set ((k', v') # d) k v =
     (if k' = k then (k', v) # d else (k', v') # dict_set d k v)"

definition ref_key :: "metadata_ref \<Rightarrow> string \<times> string \<times> string" where
  "ref_key r = (direction r, application r, field r)"

definition deduplicate :: "metadata_ref list \<Rightarrow> metadata_ref list" where
  "deduplicate refs = map snd (foldl (\<lambda>unique r. dict_set unique (ref_key r) r) [] refs)"

definition parse_docstring_for_tags :: "string option \<Rightarrow> py_error + metadata_ref list" where
  "parse_docstring_for_tags docstring =
     (case docstring of
        None \<Rightarrow> Inr []
      | Some doc \<Rightarrow>
          if doc = [] then Inr []
          else (case extract_openmetadata_section_lines doc of
                  Inl e \<Rightarrow> Inl e
                | Inr section_lines \<Rightarrow>
                    Inr (deduplicate
                           (section_refs section_lines @ fieldlist_refs doc @ inline_refs doc))))"

section \<open>Notions of the specification about the recogniser\<close>

text \<open>
  The definitions of this section are not translations of code: they say what the
  specification's sentences about the recogniser mean, so that the functions above can be
  compared with them.
\<close>

text \<open>
  \<^emph>\<open>Only one survives, in the order of first encounter\<close>: of equal elements the first one
  is kept where it stands. (\<open>remdups\<close> keeps the last of equal elements, hence the two
  reversals.)
\<close>

definition keep_first :: "'a list \<Rightarrow> 'a list" where
  "keep_first xs = rev (remdups (rev xs))"

text \<open>Adding an element to a list unless it is there already: a step of \<open>keep_first\<close>.\<close>

definition add_new :: "'a list \<Rightarrow> 'a \<Rightarrow> 'a list" where
  "add_new seen x = (if x \<in> set seen then seen else seen @ [x])"

text \<open>
  \<^emph>\<open>An occurrence of a syntax\<close>, for each of the three syntaxes that the specification
  lists: a title line with its underline, a field list line, an inline tag at some position
  of the text.
\<close>

definition has_section_heading :: "string \<Rightarrow> bool" where
  "has_section_heading doc =
     (let lines = splitlines doc in list_ex (is_heading_at lines) [0 ..< length lines - 1])"

definition has_fieldlist_line :: "string \<Rightarrow> bool" where
  "has_fieldlist_line doc = list_ex (\<lambda>raw. fieldlist_re (strip raw) \<noteq> None) (splitlines doc)"

definition has_inline_tag :: "string \<Rightarrow> bool" where
  "has_inline_tag doc = list_ex (\<lambda>n. tag_re (drop n doc) \<noteq> None) [0 ..< length doc]"

text \<open>
  A line that starts, after stripping and in any letter case, with the label
  \<open>openmetadata:\<close>. The specification does not list it; the second loop of
  \<open>_extract_openmetadata_section_lines\<close> looks for it.
\<close>

definition has_label_line :: "string \<Rightarrow> bool" where
  "has_label_line doc =
     list_ex (\<lambda>raw. startswith (lower (strip raw)) ''openmetadata:'') (splitlines doc)"

text \<open>
  \<^emph>\<open>The next line that is itself followed by such an underline\<close>, as the specification
  words the end of a section: nothing is asked of the line itself.
\<close>

definition spec_stops_at :: "string list \<Rightarrow> nat \<Rightarrow> bool" where
  "spec_stops_at lines j = (j + 1 < length lines \<and> section_underline (lines ! (j + 1)))"

text \<open>Two documentation strings used as examples below.\<close>

definition doc_two_sections :: string where
  "doc_two_sections =
     ''Load the table.'' @ LF # LF #
     ''OpenMetadata'' @ LF # ''====='' @ LF # ''upstream: a:b'' @ LF # LF # ''-----'' @ LF #
     ''Notes'' @ LF # ''-----'' @ LF # ''downstream: c:d''"

definition doc_blank_before_rule :: string where
  "doc_blank_before_rule =
     ''OpenMetadata'' @ LF # ''====='' @ LF # ''upstream: a:b'' @ LF # LF # ''-----'' @ LF #
     ''downstream: c:d''"

section \<open>The function extractor (openmetadata_linker.py)\<close>

text \<open>
  The tree that \<open>ast.parse\<close> returns, as far as the extractor looks at it: the class of a
  node, with the name, the line number and the result of \<open>ast.get_docstring\<close> when the
  node is a function definition, and the children of the node in the order of
  \<open>ast.iter_child_nodes\<close>.
\<close>

datatype node_kind =
    FunctionDef string nat "string option"
  | AsyncFunctionDef string nat "string option"
  | OtherNode

datatype node = Node node_kind "node list"

fun kind :: "node \<Rightarrow> node_kind" where
  "kind (Node k cs) = k"

fun iter_child_nodes :: "node \<Rightarrow> node list" where
  "iter_child_nodes (Node k cs) = cs"

text \<open>
  \<open>ast.walk\<close> keeps a queue: it takes the node at the front, puts the children of that node
  at the back, and yields the node.
\<close>

function walk_from :: "node list \<Rightarrow> node list" where
  "walk_from [] = []"
| "walk_from (n # todo) = n # walk_from (todo @ iter_child_nodes n)"
  by pat_completeness auto
termination
proof (relation "measure (\<lambda>todo. sum_list (map size todo))")
  show "wf (measure (\<lambda>todo. sum_list (map size todo)))" by simp
next
  fix n :: node and todo :: "node list"
  obtain k cs where n: "n = Node k cs" by (cases n)
  have "sum_list (map size cs) < size (Node k cs)"
    by (simp add: size_list_conv_sum_list)
  with n show "(todo @ iter_child_nodes n, n # todo) \<in> measure (\<lambda>todo. sum_list (map size todo))"
    by simp
qed

definition walk :: "node \<Rightarrow> node list" where
  "walk tree = walk_from [tree]"

type_synonym path = "string list"

record function_entry =
  fn_name :: string
  fn_lineno :: nat
  fn_docstring :: "string option"
  fn_tags :: "metadata_ref list"

record file_entry =
  fe_path :: path
  fe_functions :: "function_entry list"

text \<open>
  The loop \<open>for node in ast.walk(tree)\<close> over the nodes still to come: an entry for each
  node that is an instance of \<open>ast.FunctionDef\<close>, and nothing for any other node.
\<close>

fun collect_functions :: "node list \<Rightarrow> py_error + function_entry list" where
  "collect_functions [] = Inr []"
| "collect_functions (n # rest) =
     (case kind n of
        FunctionDef name lineno doc \<Rightarrow>
          (case parse_docstring_for_tags doc of
             Inl e \<Rightarrow> Inl e
           | Inr tags \<Rightarrow>
               (case collect_functions rest of
                  Inl e \<Rightarrow> Inl e
                | Inr functions \<Rightarrow>
                    Inr (\<lparr>fn_name = name, fn_lineno = lineno, fn_docstring = doc,
                          fn_tags = tags\<rparr> # functions)))
      | AsyncFunctionDef name lineno doc \<Rightarrow> collect_functions rest
      | OtherNode \<Rightarrow> collect_functions rest)"

text \<open>
  \<open>parse_file\<close> stands for \<open>file_path.read_text\<close> followed by \<open>ast.parse\<close>: the tree of the
  file, or the exception that reading or parsing raises.
\<close>

definition extract_functions_from_file :: "(path \<Rightarrow> py_error + node) \<Rightarrow> path \<Rightarrow> py_error + file_entry" where
  "extract_functions_from_file parse_file file_path =
     (case parse_file file_path of
        Inl e \<Rightarrow> Inl e
      | Inr tree \<Rightarrow>
          (case collect_functions (walk tree) of
             Inl e \<Rightarrow> Inl e
           | Inr functions \<Rightarrow> Inr \<lparr>fe_path = file_path, fe_functions = functions\<rparr>))"

text \<open>\<open>path.name\<close>: the last component, empty for a path without components.\<close>

definition path_name :: "path \<Rightarrow> string" where
  "path_name p = (if p = [] then [] else last p)"

text \<open>
  The loop of \<open>scan_python_files\<close> over the paths that \<open>root.rglob("*.py")\<close> yields. The
  result is the list of entries with the list of skipped files (each one a message on the
  standard error), or the exception that ended the loop.
\<close>

fun scan_paths :: "(path \<Rightarrow> py_error + node) \<Rightarrow> path list
    \<Rightarrow> file_entry list \<times> (path \<times> py_error) list
    \<Rightarrow> py_error + file_entry list \<times> (path \<times> py_error) list" where
  "scan_paths parse_file [] acc = Inr acc"
| "scan_paths parse_file (p # ps) (entries, skipped) =
     (if startswith (path_name p) ''__'' then scan_paths parse_file ps (entries, skipped)
      else (case extract_functions_from_file parse_file p of
              Inr fe \<Rightarrow> scan_paths parse_file ps (entries @ [fe], skipped)
            | Inl SyntaxError \<Rightarrow> scan_paths parse_file ps (entries, skipped @ [(p, SyntaxError)])
            | Inl UnicodeDecodeError \<Rightarrow>
                scan_paths parse_file ps (entries, skipped @ [(p, UnicodeDecodeError)])
            | Inl e \<Rightarrow> Inl e))"

section \<open>Notions of the specification about the extractor\<close>

text \<open>
  \<^emph>\<open>File order\<close>. A function definition is a statement, and the statements among the
  children of a node come in the order of the text, each one before the statements inside
  it; so the preorder of the tree lists the function definitions as the file does.
\<close>

fun preorder :: "node \<Rightarrow> node list" where
  "preorder (Node k cs) = Node k cs # concat (map preorder cs)"

text \<open>
  The synchronous function definitions among some nodes, each with its name, line number
  and documentation string.
\<close>

fun sync_defs :: "node list \<Rightarrow> (string \<times> nat \<times> string option) list" where
  "sync_defs [] = []"
| "sync_defs (Node (FunctionDef name lineno doc) cs # ns) = (name, lineno, doc) # sync_defs ns"
| "sync_defs (Node (AsyncFunctionDef name lineno doc) cs # ns) = sync_defs ns"
| "sync_defs (Node OtherNode cs # ns) = sync_defs ns"

definition entry_def :: "function_entry \<Rightarrow> string \<times> nat \<times> string option" where
  "entry_def f = (fn_name f, fn_lineno f, fn_docstring f)"

text \<open>
  The tree in which every asynchronous function definition has been replaced by a node of
  another class with the same children.
\<close>

fun erase_async :: "node \<Rightarrow> node" where
  "erase_async (Node (AsyncFunctionDef name lineno doc) cs) = Node OtherNode (map erase_async cs)"
| "erase_async (Node (FunctionDef name lineno doc) cs) =
     Node (FunctionDef name lineno doc) (map erase_async cs)"
| "erase_async (Node OtherNode cs) = Node OtherNode (map erase_async cs)"

text \<open>
  Two files used as examples below. The first one is

  \<^verbatim>\<open>def a():\<close>\<^smallskip>
  \<^verbatim>\<open>    def b():\<close>\<^smallskip>
  \<^verbatim>\<open>        pass\<close>\<^smallskip>
  \<^verbatim>\<open>def c():\<close>\<^smallskip>
  \<^verbatim>\<open>    pass\<close>

  with the argument lists and the \<open>pass\<close> statements as nodes of another class. The second
  one is an asynchronous function \<open>load\<close> whose documentation string is the inline tag
  \<open>openmetadata:upstream(crm:id)\<close>, followed by a function \<open>store\<close>.
\<close>

definition tree_nested :: node where
  "tree_nested =
     Node OtherNode
       [Node (FunctionDef ''a'' 1 None)
          [Node OtherNode [],
           Node (FunctionDef ''b'' 2 None) [Node OtherNode [], Node OtherNode []]],
        Node (FunctionDef ''c'' 4 None) [Node OtherNode [], Node OtherNode []]]"

definition tree_async :: node where
  "tree_async =
     Node OtherNode
       [Node (AsyncFunctionDef ''load'' 1 (Some ''openmetadata:upstream(crm:id)''))
          [Node OtherNode [], Node OtherNode []],
        Node (FunctionDef ''store'' 4 None) [Node OtherNode [], Node OtherNode []]]"

section \<open>Properties of the recogniser\<close>

subsection \<open>Removing duplicates\<close>

text \<open>
  The loop \<open>unique[key] = r\<close> is compared with \<open>keep_first\<close> through \<open>add_new\<close>.
\<close>

lemma ref_key_inj: "ref_key (a :: metadata_ref) = ref_key b \<Longrightarrow> a = b"
  by (cases a, cases b) (simp add: ref_key_def)

lemma dict_set_add_new:
  "dict_set (map (\<lambda>r. (ref_key r, r)) seen) (ref_key (r :: metadata_ref)) r
     = map (\<lambda>r. (ref_key r, r)) (add_new seen r)"
proof (induction seen)
  case Nil
  then show ?case by (simp add: add_new_def)
next
  case (Cons a seen)
  show ?case
  proof (cases "ref_key a = ref_key r")
    case True
    then have "a = r" by (rule ref_key_inj)
    then show ?thesis by (simp add: add_new_def)
  next
    case False
    then have "a \<noteq> r" by auto
    with False Cons.IH show ?thesis by (simp add: add_new_def)
  qed
qed

lemma foldl_dict_set:
  "foldl (\<lambda>unique r. dict_set unique (ref_key r) r) (map (\<lambda>r. (ref_key r, r)) seen) refs
     = map (\<lambda>r. (ref_key (r :: metadata_ref), r)) (foldl add_new seen refs)"
  by (induction refs arbitrary: seen) (simp_all add: dict_set_add_new)

lemma remdups_snoc:
  "remdups (ys @ [x]) = remdups (filter (\<lambda>y. y \<noteq> x) ys) @ [x]"
  by (induction ys) auto

lemma foldl_add_new:
  "foldl add_new seen xs = seen @ keep_first (filter (\<lambda>x. x \<notin> set seen) xs)"
proof (induction xs arbitrary: seen)
  case Nil
  then show ?case by (simp add: keep_first_def)
next
  case (Cons x xs)
  show ?case
  proof (cases "x \<in> set seen")
    case True
    then have "add_new seen x = seen" by (simp add: add_new_def)
    with True Cons.IH[of seen] show ?thesis by simp
  next
    case False
    have "filter (\<lambda>y. y \<notin> set (seen @ [x])) xs
            = filter (\<lambda>y. y \<noteq> x) (filter (\<lambda>y. y \<notin> set seen) xs)"
      by (induction xs) auto
    then have "foldl add_new (seen @ [x]) xs
                 = seen @ [x] @ keep_first (filter (\<lambda>y. y \<noteq> x) (filter (\<lambda>y. y \<notin> set seen) xs))"
      using Cons.IH[of "seen @ [x]"] by simp
    moreover have "keep_first (x # ys) = x # keep_first (filter (\<lambda>y. y \<noteq> x) ys)" for ys
      by (simp add: keep_first_def remdups_snoc rev_filter)
    moreover from False have "add_new seen x = seen @ [x]"
      by (simp add: add_new_def)
    ultimately show ?thesis using False
      by simp
  qed
qed

lemma deduplicate_keep_first: "deduplicate refs = keep_first refs"
proof -
  have "foldl (\<lambda>unique r. dict_set unique (ref_key r) r) [] refs
          = map (\<lambda>r. (ref_key r, r)) (foldl add_new [] refs)"
    using foldl_dict_set[of "[]" refs] by simp
  then show ?thesis
    by (simp add: deduplicate_def foldl_add_new comp_def)
qed

lemma distinct_keep_first: "distinct (keep_first xs)"
  by (simp add: keep_first_def)

lemma set_keep_first: "set (keep_first xs) = set xs"
  by (simp add: keep_first_def)

lemma distinct_keys_keep_first: "distinct (map ref_key (keep_first (xs :: metadata_ref list)))"
  by (simp add: distinct_map distinct_keep_first inj_on_def ref_key_inj)


subsection \<open>The section lines never fail\<close>

text \<open>
  \<open>lines[i].split(":", 1)[1]\<close> is only reached on a line whose stripped, lower-cased text
  starts with \<open>openmetadata:\<close>; such a line contains a colon, so the index is in range.
\<close>

lemma lower_char_colon: "lower_char c = CHR '':'' \<Longrightarrow> c = CHR '':''"
proof (rule ccontr)
  assume a: "lower_char c = CHR '':''" and n: "c \<noteq> CHR '':''"
  define n where "n = (of_char c :: nat)"
  from a n have up: "(65 \<le> n \<and> n \<le> 90) \<or> (192 \<le> n \<and> n \<le> 222 \<and> n \<noteq> 215)"
    and eq: "char_of (n + 32) = CHR '':''"
    by (auto simp: lower_char_def Let_def n_def split: if_splits)
  from eq have "(of_char (char_of (n + 32) :: char) :: nat) = of_char (CHR '':'')" by simp
  then have "(n + 32) mod 256 = 58" by (simp add: of_char_of)
  with up show False by auto
qed


lemma find_char_None: "find_char c s = None \<longleftrightarrow> c \<notin> set s"
  by (induction s) auto

lemma startswith_set: "startswith s p \<Longrightarrow> set p \<subseteq> set s"
  by (induction s p rule: startswith.induct) auto

lemma set_strip: "set (strip s) \<subseteq> set s"
proof -
  have "set (strip s) \<subseteq> set (dropWhile is_space s)"
    unfolding strip_def using set_dropWhileD[of _ is_space "rev (dropWhile is_space s)"] by auto
  also have "\<dots> \<subseteq> set s" using set_dropWhileD[of _ is_space s] by auto
  finally show ?thesis .
qed

lemma label_has_colon:
  assumes "startswith (lower (strip l)) ''openmetadata:''"
  shows "find_char (CHR '':'') l \<noteq> None"
proof -
  from startswith_set[OF assms] have "CHR '':'' \<in> set (lower (strip l))" by simp
  then obtain c where "c \<in> set (strip l)" "lower_char c = CHR '':''"
    by (auto simp: lower_def)
  then have "CHR '':'' \<in> set (strip l)" by (auto dest: lower_char_colon)
  with set_strip[of l] show ?thesis by (auto simp: find_char_None)
qed

lemma item1_split_once:
  "find_char c s \<noteq> None \<Longrightarrow> \<exists>a. item1 (split_once c s) = Inr a"
  by (auto simp: item1_def split_once_def)

lemma pattern_b_Inr: "pattern_b lines is = Some r \<Longrightarrow> \<exists>ls. r = Inr ls"
proof (induction "is")
  case Nil
  then show ?case by simp
next
  case (Cons i "is")
  show ?case
  proof (cases "startswith (lower (strip (lines ! i))) ''openmetadata:''")
    case True
    from item1_split_once[OF label_has_colon[OF True]]
    obtain a where "item1 (split_once (CHR '':'') (lines ! i)) = Inr a" by blast
    with True Cons.prems show ?thesis by auto
  next
    case False
    with Cons show ?thesis by simp
  qed
qed

lemma extract_total: "\<exists>ls. extract_openmetadata_section_lines doc = Inr ls"
  by (auto simp: extract_openmetadata_section_lines_def Let_def
           dest: pattern_b_Inr split: option.splits)

lemma splitlines_Nil: "splitlines [] = []"
  by (simp add: splitlines_def)

lemma finditer_Nil: "finditer [] = []"
  by simp

subsection \<open>The underline pattern\<close>

lemma rx_star_from_greedy:
  "list_all P m \<Longrightarrow> rest = [] \<or> \<not> P (hd rest) \<Longrightarrow> k (acc @ m) rest = Some r
     \<Longrightarrow> rx_star_from P acc k (m @ rest) = Some r"
proof (induction m arbitrary: acc)
  case Nil
  then show ?case by (cases rest) auto
next
  case (Cons c m)
  from Cons.prems have "rx_star_from P (acc @ [c]) k (m @ rest) = Some r"
    by (intro Cons.IH) auto
  with Cons.prems show ?case by simp
qed

lemma underline_not_space: "is_underline_char c \<Longrightarrow> \<not> is_space c"
  by (auto simp: is_underline_char_def is_space_def)

lemma section_underline_iff:
  "section_underline l \<longleftrightarrow>
     (\<exists>u w. l = u @ w \<and> 3 \<le> length u \<and> list_all is_underline_char u \<and> list_all is_space w)"
proof
  assume "section_underline l"
  then obtain r where "rx_star_from is_underline_char []
        (\<lambda>m. if length m < 3 then (\<lambda>r. None) else rx_star is_space (rx_eol ())) l = Some r"
    by (auto simp: section_underline_def)
  from rx_star_from_Some[OF this] obtain u rest where
    l: "l = u @ rest" and u: "list_all is_underline_char u"
    and k: "(if length u < 3 then (\<lambda>r. None) else rx_star is_space (rx_eol ())) rest = Some r"
    by auto
  from k have len: "3 \<le> length u" and "rx_star is_space (rx_eol ()) rest = Some r"
    by (auto split: if_splits)
  from rx_star_Some[OF this(2)] obtain m rest' where
    "rest = m @ rest'" "list_all is_space m" "rx_eol () rest' = Some r"
    by auto
  then have "list_all is_space rest"
    by (auto simp: rx_eol_def is_space_def split: if_splits)
  with l u len show "\<exists>u w. l = u @ w \<and> 3 \<le> length u \<and> list_all is_underline_char u
      \<and> list_all is_space w"
    by blast
next
  assume "\<exists>u w. l = u @ w \<and> 3 \<le> length u \<and> list_all is_underline_char u \<and> list_all is_space w"
  then obtain u w where l: "l = u @ w" and len: "3 \<le> length u"
    and u: "list_all is_underline_char u" and w: "list_all is_space w"
    by blast
  have "rx_star_from is_space [] (\<lambda>m. rx_eol ()) (w @ []) = Some ()"
    using w by (intro rx_star_from_greedy) (auto simp: rx_eol_def)
  then have tail: "rx_star is_space (rx_eol ()) w = Some ()"
    by (simp add: rx_star_def)
  have "w = [] \<or> \<not> is_underline_char (hd w)"
    using w by (cases w) (auto dest: underline_not_space)
  with u len tail have "rx_star_from is_underline_char []
        (\<lambda>m. if length m < 3 then (\<lambda>r. None) else rx_star is_space (rx_eol ())) (u @ w) = Some ()"
    by (intro rx_star_from_greedy) auto
  with l show "section_underline l" by (simp add: section_underline_def)
qed

subsection \<open>The two loops over the lines\<close>

lemma pattern_a_None: "pattern_a lines is = None \<longleftrightarrow> \<not> list_ex (is_heading_at lines) is"
  by (induction "is") auto

lemma pattern_a_first:
  "\<not> list_ex (is_heading_at lines) xs \<Longrightarrow> is_heading_at lines i
     \<Longrightarrow> pattern_a lines (xs @ i # ys) = Some (collect_section lines (i + 2))"
  by (induction xs) auto

lemma pattern_b_None:
  "pattern_b lines is = None
     \<longleftrightarrow> \<not> list_ex (\<lambda>i. startswith (lower (strip (lines ! i))) ''openmetadata:'') is"
  by (induction "is") auto

lemma list_ex_nth: "list_ex (\<lambda>i. Q (xs ! i)) [0 ..< length xs] = list_ex Q xs"
  by (force simp: list_ex_iff in_set_conv_nth)

lemma collect_section_take:
  "j \<le> k \<Longrightarrow> k \<le> length lines \<Longrightarrow> \<forall>j'. j \<le> j' \<and> j' < k \<longrightarrow> \<not> stops_at lines j'
     \<Longrightarrow> k < length lines \<longrightarrow> stops_at lines k
     \<Longrightarrow> collect_section lines j = take (k - j) (drop j lines)"
proof (induction "k - j" arbitrary: j)
  case 0
  then have "j = k" by simp
  with 0 show ?case by (cases "k < length lines") simp_all
next
  case (Suc d)
  then have lt: "j < k" "j < length lines" and ns: "\<not> stops_at lines j" by auto
  have "collect_section lines (j + 1) = take (k - (j + 1)) (drop (j + 1) lines)"
    using Suc by (intro Suc.hyps) auto
  moreover have "take (k - j) (drop j lines) = lines ! j # take (k - (j + 1)) (drop (j + 1) lines)"
    using lt by (simp add: Cons_nth_drop_Suc[symmetric] take_Suc_Cons[symmetric] Suc_diff_Suc
                      del: take_Suc_Cons)
  ultimately show ?case using lt ns by simp
qed

lemma finditer_no_match:
  "\<forall>n<length s. tag_re (drop n s) = None \<Longrightarrow> finditer s = []"
proof (induction s)
  case Nil
  then show ?case by simp
next
  case (Cons c cs)
  from Cons.prems have "tag_re (drop 0 (c # cs)) = None" by blast
  then have here: "tag_re (c # cs) = None" by simp
  have "\<forall>n<length cs. tag_re (drop n cs) = None"
  proof (intro allI impI)
    fix n assume "n < length cs"
    then have "tag_re (drop (Suc n) (c # cs)) = None" using Cons.prems by auto
    then show "tag_re (drop n cs) = None" by simp
  qed
  with Cons.IH here show ?case by simp
qed

subsection \<open>Duplicates\<close>

text \<open>
  Claim C4. For every documentation string the recogniser returns a list (it never
  raises) in which no two references have the same triple of direction, application and
  field. The list is the concatenation of what the section lines, the field list lines and
  the inline tags give, in that order, with every reference that repeats an earlier one
  removed: of equal triples exactly the first survives, and the survivors keep the order in
  which they were first met. Nothing else is lost: the result has the same elements as the
  concatenation.
\<close>

theorem duplicates_removed_in_first_seen_order:
  "\<exists>section_lines refs.
      extract_openmetadata_section_lines doc = Inr section_lines
      \<and> parse_docstring_for_tags (Some doc) = Inr refs
      \<and> refs = keep_first (section_refs section_lines @ fieldlist_refs doc @ inline_refs doc)
      \<and> distinct (map ref_key refs)
      \<and> set refs = set (section_refs section_lines @ fieldlist_refs doc @ inline_refs doc)"
proof -
  obtain ls where ls: "extract_openmetadata_section_lines doc = Inr ls"
    using extract_total by blast
  let ?raw = "section_refs ls @ fieldlist_refs doc @ inline_refs doc"
  have "parse_docstring_for_tags (Some doc) = Inr (keep_first ?raw)"
  proof (cases "doc = []")
    case True
    with ls have "ls = []"
      by (simp add: extract_openmetadata_section_lines_def splitlines_Nil)
    with True show ?thesis
      by (simp add: parse_docstring_for_tags_def section_refs_def fieldlist_refs_def
            inline_refs_def splitlines_Nil keep_first_def)
  next
    case False
    with ls show ?thesis
      by (simp add: parse_docstring_for_tags_def deduplicate_keep_first)
  qed
  with ls show ?thesis
    by (simp add: distinct_keys_keep_first set_keep_first)
qed

subsection \<open>Texts without tags\<close>

text \<open>
  Claim C5, as the code has it. A documentation string with no title line followed by an
  underline, no field list line, no inline tag and also no line that starts with the label
  \<open>openmetadata:\<close> gives the empty list of references. The fourth condition is needed:
  see \<open>label_line_is_a_fourth_syntax\<close> below.
\<close>

theorem no_syntax_no_references:
  assumes "\<not> has_section_heading doc" and "\<not> has_label_line doc"
    and "\<not> has_fieldlist_line doc" and "\<not> has_inline_tag doc"
  shows "parse_docstring_for_tags (Some doc) = Inr []"
proof -
  have a: "pattern_a (splitlines doc) [0 ..< length (splitlines doc) - 1] = None"
    using assms(1) by (simp add: has_section_heading_def Let_def pattern_a_None)
  have b: "pattern_b (splitlines doc) [0 ..< length (splitlines doc)] = None"
    using assms(2)
      list_ex_nth[of "\<lambda>raw. startswith (lower (strip raw)) ''openmetadata:''" "splitlines doc"]
    by (simp add: has_label_line_def pattern_b_None)
  from a b have sec: "extract_openmetadata_section_lines doc = Inr []"
    by (simp add: extract_openmetadata_section_lines_def Let_def)
  have fl: "fieldlist_refs doc = []"
    using assms(3)
    by (auto simp: fieldlist_refs_def has_fieldlist_line_def list_ex_iff split: option.splits)
  have "\<forall>n<length doc. tag_re (drop n doc) = None"
    using assms(4) by (simp add: has_inline_tag_def list_ex_iff del: not_None_eq)
  then have inl: "inline_refs doc = []"
    by (simp add: inline_refs_def finditer_no_match)
  from sec fl inl show ?thesis
    by (simp add: parse_docstring_for_tags_def section_refs_def deduplicate_def)
qed

text \<open>The theorem at a text without tags: its four hypotheses hold there.\<close>

theorem no_syntax_no_references_witness:
  "\<not> has_section_heading ''Compute the totals.'' \<and> \<not> has_label_line ''Compute the totals.''
   \<and> \<not> has_fieldlist_line ''Compute the totals.'' \<and> \<not> has_inline_tag ''Compute the totals.''
   \<and> parse_docstring_for_tags (Some ''Compute the totals.'') = Inr []"
proof -
  have h: "\<not> has_section_heading ''Compute the totals.''"
    "\<not> has_label_line ''Compute the totals.''"
    "\<not> has_fieldlist_line ''Compute the totals.''"
    "\<not> has_inline_tag ''Compute the totals.''"
    by code_simp+
  from no_syntax_no_references[OF h] h show ?thesis by simp
qed

text \<open>
  Claim C5, as the specification words it, fails. The one-line text
  \<open>OpenMetadata: upstream: a:b\<close> has no title line with an underline, no field list line
  and no inline tag, and the recogniser returns one reference for it: the line is taken by
  the second loop of \<open>_extract_openmetadata_section_lines\<close>, which accepts the label
  \<open>OpenMetadata:\<close> with the content after the colon.
\<close>

theorem label_line_is_a_fourth_syntax:
  "\<not> has_section_heading ''OpenMetadata: upstream: a:b''
   \<and> \<not> has_fieldlist_line ''OpenMetadata: upstream: a:b''
   \<and> \<not> has_inline_tag ''OpenMetadata: upstream: a:b''
   \<and> parse_docstring_for_tags (Some ''OpenMetadata: upstream: a:b'')
       = Inr [\<lparr>direction = ''upstream'', application = ''a'', field = ''b''\<rparr>]"
  by code_simp

subsection \<open>The body of the section\<close>

text \<open>
  Claim C7, as the code has it. Let \<open>i\<close> be the first line of the text that is the title
  (\<open>openmetadata\<close> after stripping, in any letter case) with an underline on the next line.
  The section body is the lines from \<open>i + 2\<close> up to, but not including, the first line \<open>k\<close>
  that is \<^emph>\<open>not blank\<close> and is followed by an underline, or up to the end of the text if
  there is no such line. A blank line followed by an underline does not end the body: see
  \<open>blank_line_does_not_end_section\<close> below.
\<close>

theorem section_body_lines:
  assumes "lines = splitlines doc"
    and "i + 1 < length lines" and "is_heading_at lines i"
    and "\<forall>i'<i. \<not> is_heading_at lines i'"
    and "i + 2 \<le> k" and "k \<le> length lines"
    and "\<forall>j. i + 2 \<le> j \<and> j < k \<longrightarrow> \<not> stops_at lines j"
    and "k < length lines \<longrightarrow> stops_at lines k"
  shows "extract_openmetadata_section_lines doc = Inr (take (k - (i + 2)) (drop (i + 2) lines))"
proof -
  have split: "[0 ..< length lines - 1] = [0 ..< i] @ i # [i + 1 ..< length lines - 1]"
    using assms(2) upt_add_eq_append[of 0 i "length lines - 1 - i"]
      upt_conv_Cons[of i "length lines - 1"]
    by simp
  have "\<not> list_ex (is_heading_at lines) [0 ..< i]"
    using assms(4) by (simp add: list_ex_iff)
  then have "pattern_a lines [0 ..< length lines - 1] = Some (collect_section lines (i + 2))"
    unfolding split using assms(3) by (rule pattern_a_first)
  moreover have "collect_section lines (i + 2) = take (k - (i + 2)) (drop (i + 2) lines)"
    using assms(5-8) by (rule collect_section_take)
  ultimately show ?thesis
    using assms(1) by (simp add: extract_openmetadata_section_lines_def Let_def)
qed

text \<open>
  The theorem at a text of ten lines: the title is line 2, the body runs from line 4 to
  line 6, and line 7 (\<open>Notes\<close>, with its underline on line 8) ends it. Line 5 is blank and
  line 6 is an underline; the body goes on through both.
\<close>

theorem section_body_lines_witness:
  "extract_openmetadata_section_lines doc_two_sections = Inr [''upstream: a:b'', '''', ''-----'']"
proof -
  define lines where "lines = splitlines doc_two_sections"
  have l: "lines = [''Load the table.'', '''', ''OpenMetadata'', ''====='', ''upstream: a:b'',
                    '''', ''-----'', ''Notes'', ''-----'', ''downstream: c:d'']"
    unfolding lines_def by code_simp
  have h: "\<not> is_heading_at lines 0" "\<not> is_heading_at lines 1" "is_heading_at lines 2"
    unfolding l by code_simp+
  have s: "\<not> stops_at lines 4" "\<not> stops_at lines 5" "\<not> stops_at lines 6" "stops_at lines 7"
    unfolding l by code_simp+
  have first: "\<forall>i'<2. \<not> is_heading_at lines i'"
  proof (intro allI impI)
    fix i' :: nat assume "i' < 2"
    then have "i' = 0 \<or> i' = 1" by arith
    with h show "\<not> is_heading_at lines i'" by auto
  qed
  have none: "\<forall>j. 2 + 2 \<le> j \<and> j < 7 \<longrightarrow> \<not> stops_at lines j"
  proof (intro allI impI)
    fix j :: nat assume "2 + 2 \<le> j \<and> j < 7"
    then have "j = 4 \<or> j = 5 \<or> j = 6" by arith
    with s show "\<not> stops_at lines j" by auto
  qed
  have "extract_openmetadata_section_lines doc_two_sections
          = Inr (take (7 - (2 + 2)) (drop (2 + 2) lines))"
    using h(3) first none s(4)
    by (intro section_body_lines) (simp_all add: lines_def[symmetric] l)
  then show ?thesis by (simp add: l)
qed

text \<open>
  Claim C7, as the specification words it, fails. In \<open>doc_blank_before_rule\<close> the title is
  line 0, the body starts at line 2, and line 3 is the next line that is itself followed by
  an underline (line 4); by the specification's sentence the body is line 2 alone. Line 3 is
  blank, so the code does not stop there: the body is lines 2 to 5, and the recogniser also
  returns the reference of line 5.
\<close>

theorem blank_line_does_not_end_section:
  "is_heading_at (splitlines doc_blank_before_rule) 0
   \<and> \<not> spec_stops_at (splitlines doc_blank_before_rule) 2
   \<and> spec_stops_at (splitlines doc_blank_before_rule) 3
   \<and> extract_openmetadata_section_lines doc_blank_before_rule
       = Inr [''upstream: a:b'', '''', ''-----'', ''downstream: c:d'']
   \<and> extract_openmetadata_section_lines doc_blank_before_rule
       \<noteq> Inr (take (3 - (0 + 2)) (drop (0 + 2) (splitlines doc_blank_before_rule)))
   \<and> parse_docstring_for_tags (Some doc_blank_before_rule)
       = Inr [\<lparr>direction = ''upstream'', application = ''a'', field = ''b''\<rparr>,
              \<lparr>direction = ''downstream'', application = ''c'', field = ''d''\<rparr>]"
  by code_simp

subsection \<open>Empty application or field names\<close>

text \<open>
  Claim C9. The recogniser can return a reference whose application name or field name is
  the empty string. \<open>_split_app_field\<close> only asks for a colon in the stripped part and
  strips the two halves without looking at what remains, so the part \<open>:x\<close> gives an empty
  application with the field \<open>x\<close>, and the part \<open>x:\<close> gives an empty field. The
  field list \<open>:openmetadata-upstream: :x\<close> comes out as the reference with direction
  \<open>upstream\<close>, an empty application and the field \<open>x\<close>, and the inline tag
  \<open>openmetadata:downstream(a: )\<close> as the reference with an empty field: nothing validates
  or drops them.
\<close>

theorem empty_application_or_field_is_kept:
  "split_app_field '':x'' = Some ('''', ''x'')
   \<and> split_app_field ''x:'' = Some (''x'', '''')
   \<and> parse_docstring_for_tags (Some '':openmetadata-upstream: :x'')
       = Inr [\<lparr>direction = ''upstream'', application = '''', field = ''x''\<rparr>]
   \<and> parse_docstring_for_tags (Some ''openmetadata:downstream(a: )'')
       = Inr [\<lparr>direction = ''downstream'', application = ''a'', field = ''''\<rparr>]"
  by code_simp

end
